theory Spec2Isabelle
  imports Main
begin

section \<open>The state registry of statemachine/states.py\<close>

text \<open>
  The module defines one class, \<^verbatim>\<open>States\<close>: a wrapper around a Python dictionary
  from names to \<^verbatim>\<open>State\<close> objects, and a class method \<^verbatim>\<open>from_enum\<close> that
  fills such a dictionary from an enumeration. Python dictionaries keep their keys in
  insertion order, so a dictionary is an association list here, first inserted key first.
\<close>

subsection \<open>Python exceptions\<close>

text \<open>
  The exceptions the module raises itself (\<^verbatim>\<open>AttributeError\<close> in
  \<^verbatim>\<open>__getattr__\<close>) and those of the interpreter operations it calls: iterating
  something that is not iterable, reading an attribute an object lacks and hashing an
  object that cannot be hashed. The argument is the message, without the name of the
  object's type where Python puts it there.
\<close>

datatype py_error = AttributeError string | TypeError string | StopIteration

definition is_AttributeError :: "py_error \<Rightarrow> bool" where
  "is_AttributeError e = (case e of AttributeError _ \<Rightarrow> True | _ \<Rightarrow> False)"

subsection \<open>State entities\<close>

text \<open>
  Modelled from the spec: the class \<^verbatim>\<open>State\<close> (statemachine/state.py is not part of
  the sources at hand). Section 3 of the specification gives an entity an identity
  \<^verbatim>\<open>id\<close>, an external \<^verbatim>\<open>value\<close> and the flags \<^verbatim>\<open>initial\<close> and \<^verbatim>\<open>final\<close>,
  immutable once constructed. Entities are plain values, and two entities are equal when
  all four components are.
\<close>

record 'v State =
  state_id :: string
  state_value :: 'v
  initial :: bool
  final :: bool

subsection \<open>Insertion-ordered dictionaries\<close>

type_synonym ('k, 'a) dict = "('k \<times> 'a) list"

text \<open>\<^verbatim>\<open>k in d\<close>.\<close>

definition dict_contains :: "('k, 'a) dict \<Rightarrow> 'k \<Rightarrow> bool" where
  "dict_contains d k = (k \<in> fst ` set d)"

text \<open>\<^verbatim>\<open>d[k]\<close>, which raises \<^verbatim>\<open>KeyError\<close> on a missing key: \<open>None\<close> here.\<close>

fun dict_getitem :: "('k, 'a) dict \<Rightarrow> 'k \<Rightarrow> 'a option" where
  "dict_getitem [] k = None"
| "dict_getitem ((k', x) # d) k = (if k' = k then Some x else dict_getitem d k)"

text \<open>
  \<^verbatim>\<open>d[k] = x\<close>: an existing key keeps its position and gets the new value, a new key
  goes to the end.
\<close>

fun dict_setitem :: "('k, 'a) dict \<Rightarrow> 'k \<Rightarrow> 'a \<Rightarrow> ('k, 'a) dict" where
  "dict_setitem [] k x = [(k, x)]"
| "dict_setitem ((k', y) # d) k x =
     (if k' = k then (k, x) # d else (k', y) # dict_setitem d k x)"

text \<open>What every Python dictionary satisfies: no key twice.\<close>

definition is_dict :: "('k, 'a) dict \<Rightarrow> bool" where
  "is_dict d = distinct (map fst d)"

subsection \<open>The class States\<close>

text \<open>The only instance attribute is \<^verbatim>\<open>_states\<close>.\<close>

record 'v States =
  states_of :: "(string, 'v State) dict"

text \<open>
  \<^verbatim>\<open>__init__(self, states=None)\<close> stores the dictionary it is given, or an empty one.
  It has no check and no \<^verbatim>\<open>raise\<close>.
\<close>

definition States_init :: "(string, 'v State) dict option \<Rightarrow> py_error + 'v States" where
  "States_init states =
     Inr \<lparr>states_of = (case states of Some d \<Rightarrow> d | None \<Rightarrow> [])\<rparr>"

text \<open>
  \<^verbatim>\<open>__getattr__(self, name)\<close>, which Python calls when the ordinary attribute lookup
  has found nothing under \<open>name\<close>.
\<close>

definition States_getattr :: "'v States \<Rightarrow> string \<Rightarrow> py_error + 'v State" where
  "States_getattr self name =
     (if dict_contains (states_of self) name
      then (case dict_getitem (states_of self) name of
              Some st \<Rightarrow> Inr st
            | None \<Rightarrow> Inl (AttributeError (name @ '' not found in States'')))
      else Inl (AttributeError (name @ '' not found in States'')))"

text \<open>\<^verbatim>\<open>__len__\<close>.\<close>

definition States_len :: "'v States \<Rightarrow> nat" where
  "States_len self = length (states_of self)"

text \<open>\<^verbatim>\<open>append(self, state)\<close>: \<^verbatim>\<open>self._states[state.id] = state\<close>.\<close>

definition States_append :: "'v States \<Rightarrow> 'v State \<Rightarrow> 'v States" where
  "States_append self state = self\<lparr>states_of := dict_setitem (states_of self) (state_id state) state\<rparr>"

text \<open>\<^verbatim>\<open>items(self)\<close>: the pairs of the dictionary, in its order.\<close>

definition States_items :: "'v States \<Rightarrow> (string \<times> 'v State) list" where
  "States_items self = states_of self"

text \<open>\<^verbatim>\<open>self._states.values()\<close>, the sequence \<^verbatim>\<open>__iter__\<close> runs over.\<close>

definition dict_values :: "('k, 'a) dict \<Rightarrow> 'a list" where
  "dict_values d = map snd d"

subsection \<open>Iterators\<close>

text \<open>
  \<^verbatim>\<open>iter(...)\<close> makes a new iterator object each time it is called: a cursor of its
  own into the sequence it runs over. Iterator objects live in a store, addressed by
  numbers, so that two of them can be told apart and advancing one can be seen to leave
  the other alone. The registry is not changed while it is traversed in what follows, so
  an iterator holds the sequence as it was when the iterator was made.
\<close>

record 'a py_iter =
  over :: "'a list"
  pos :: nat

record 'a iter_store =
  objs :: "nat \<Rightarrow> 'a py_iter"
  next_free :: nat

definition empty_store :: "'a iter_store" where
  "empty_store = \<lparr>objs = (\<lambda>_. \<lparr>over = [], pos = 0\<rparr>), next_free = 0\<rparr>"

definition py_iter :: "'a list \<Rightarrow> 'a iter_store \<Rightarrow> nat \<times> 'a iter_store" where
  "py_iter xs h =
     (next_free h,
      h\<lparr>objs := (objs h)(next_free h := \<lparr>over = xs, pos = 0\<rparr>),
        next_free := Suc (next_free h)\<rparr>)"

text \<open>\<^verbatim>\<open>next(it)\<close>: the entry under the cursor, which moves on, or \<^verbatim>\<open>StopIteration\<close>.\<close>

definition py_next :: "nat \<Rightarrow> 'a iter_store \<Rightarrow> (py_error + 'a) \<times> 'a iter_store" where
  "py_next a h =
     (let it = objs h a
      in if pos it < length (over it)
         then (Inr (over it ! pos it), h\<lparr>objs := (objs h)(a := it\<lparr>pos := Suc (pos it)\<rparr>)\<rparr>)
         else (Inl StopIteration, h))"

text \<open>\<open>k\<close> calls of \<^verbatim>\<open>next(it)\<close>, the results dropped.\<close>

fun py_next_times :: "nat \<Rightarrow> nat \<Rightarrow> 'a iter_store \<Rightarrow> 'a iter_store" where
  "py_next_times 0 a h = h"
| "py_next_times (Suc k) a h = py_next_times k a (snd (py_next a h))"

text \<open>\<^verbatim>\<open>list(it)\<close>: calls \<^verbatim>\<open>next\<close> until it raises \<^verbatim>\<open>StopIteration\<close>.\<close>

function py_list :: "nat \<Rightarrow> 'a iter_store \<Rightarrow> 'a list \<times> 'a iter_store" where
  "py_list a h =
     (case py_next a h of
        (Inl _, h') \<Rightarrow> ([], h')
      | (Inr x, h') \<Rightarrow> (case py_list a h' of (xs, h'') \<Rightarrow> (x # xs, h'')))"
  by pat_completeness auto
termination
proof (relation "measure (\<lambda>(a, h). length (over (objs h a)) - pos (objs h a))")
qed (auto simp: py_next_def Let_def split: if_splits)

declare py_list.simps [simp del]

text \<open>\<^verbatim>\<open>__iter__(self)\<close>: \<^verbatim>\<open>iter(self._states.values())\<close>.\<close>

definition States_iter :: "'v States \<Rightarrow> 'v State iter_store \<Rightarrow> nat \<times> 'v State iter_store" where
  "States_iter self h = py_iter (dict_values (states_of self)) h"

text \<open>\<^verbatim>\<open>list(self)\<close>: a new iterator from \<^verbatim>\<open>__iter__\<close>, run to its end.\<close>

definition list_States :: "'v States \<Rightarrow> 'v State list" where
  "list_States self = (case States_iter self empty_store of (a, h) \<Rightarrow> fst (py_list a h))"

subsection \<open>Equality\<close>

text \<open>
  \<^verbatim>\<open>==\<close> on two Python lists: the same length and equal entries, position by
  position.
\<close>

fun py_list_eq :: "'a list \<Rightarrow> 'a list \<Rightarrow> bool" where
  "py_list_eq [] [] = True"
| "py_list_eq (x # xs) (y # ys) = (x = y \<and> py_list_eq xs ys)"
| "py_list_eq _ _ = False"

text \<open>
  What \<^verbatim>\<open>__eq__\<close> may be handed as \<^verbatim>\<open>other\<close>: another registry, a list of
  entities, or something \<^verbatim>\<open>list(...)\<close> cannot iterate.
\<close>

datatype 'v py_other = OfStates "'v States" | OfList "'v State list" | NotIterable

definition list_other :: "'v py_other \<Rightarrow> py_error + 'v State list" where
  "list_other other =
     (case other of
        OfStates t \<Rightarrow> Inr (list_States t)
      | OfList xs \<Rightarrow> Inr xs
      | NotIterable \<Rightarrow> Inl (TypeError ''object is not iterable''))"

text \<open>\<^verbatim>\<open>__eq__(self, other)\<close>: \<^verbatim>\<open>list(self) == list(other)\<close>.\<close>

definition States_eq :: "'v States \<Rightarrow> 'v py_other \<Rightarrow> py_error + bool" where
  "States_eq self other =
     (let xs = list_States self
      in case list_other other of
           Inl err \<Rightarrow> Inl err
         | Inr ys \<Rightarrow> Inr (py_list_eq xs ys))"

subsection \<open>Attribute access on a registry\<close>

text \<open>
  The expression \<^verbatim>\<open>states.name\<close> first looks \<open>name\<close> up in the instance and in its
  class, and calls \<^verbatim>\<open>__getattr__\<close> only when that finds nothing. The instance has the
  attribute \<^verbatim>\<open>_states\<close>; the class body defines the names below; \<open>inherited\<close> stands for
  the names every Python object has besides (\<^verbatim>\<open>__class__\<close>, \<^verbatim>\<open>__dict__\<close>, ...), which
  the module does not list.
\<close>

definition States_class_attrs :: "string list" where
  "States_class_attrs =
     [''__init__'', ''__repr__'', ''__eq__'', ''__getattr__'', ''__len__'', ''__iter__'',
      ''append'', ''items'', ''from_enum'']"

datatype 'v attribute =
    InstanceDict "(string, 'v State) dict"
  | ClassAttr string
  | Entity "'v State"

definition py_getattr :: "string list \<Rightarrow> 'v States \<Rightarrow> string \<Rightarrow> py_error + 'v attribute" where
  "py_getattr inherited self name =
     (if name = ''_states'' then Inr (InstanceDict (states_of self))
      else if name \<in> set States_class_attrs \<or> name \<in> set inherited then Inr (ClassAttr name)
      else (case States_getattr self name of
              Inl err \<Rightarrow> Inl err
            | Inr st \<Rightarrow> Inr (Entity st)))"

subsection \<open>Enumerations\<close>

text \<open>
  Enumeration constants are objects with an identity: \<^verbatim>\<open>e is initial\<close> asks whether two
  references are the same object, whatever the objects hold. So constants are references
  into a store of objects. An object of the store may have the attributes \<^verbatim>\<open>name\<close> and
  \<^verbatim>\<open>value\<close>, as every member of an \<^verbatim>\<open>Enum\<close> has, or lack them, and
  \<^verbatim>\<open>hash(...)\<close> of it may succeed, as it does for a member of an \<^verbatim>\<open>Enum\<close> that does
  not override it, or raise \<^verbatim>\<open>TypeError\<close>.
\<close>

type_synonym ref = nat

record 'v py_object =
  attr_name :: "string option"
  attr_value :: "'v option"
  hashable :: bool

type_synonym 'v objects = "ref \<Rightarrow> 'v py_object"

text \<open>
  The \<^verbatim>\<open>value\<close> of an entity made by \<^verbatim>\<open>from_enum\<close>: the constant itself (the
  reference) or the constant's \<^verbatim>\<open>value\<close>.
\<close>

datatype 'v py_value = Instance ref | Scalar 'v

text \<open>The argument \<^verbatim>\<open>enum_type\<close>: iterating it yields its members in declaration order.\<close>

datatype enum_arg = Members "ref list" | NotAnEnum

text \<open>The argument \<^verbatim>\<open>final\<close>: left out (\<^verbatim>\<open>None\<close>), one constant, or a collection.\<close>

datatype final_arg = NoFinal | OneFinal ref | ManyFinal "ref list"

text \<open>
  Modelled from the spec: \<^verbatim>\<open>ensure_iterable\<close> (statemachine/utils.py is not part of
  the sources at hand). Section 4.2 of the specification: the final selector, a single
  constant or a collection, is normalised uniformly into the collection of the constants it
  designates; the selector is optional.
\<close>

definition ensure_iterable :: "final_arg \<Rightarrow> ref list" where
  "ensure_iterable fin = (case fin of NoFinal \<Rightarrow> [] | OneFinal c \<Rightarrow> [c] | ManyFinal cs \<Rightarrow> cs)"

text \<open>
  \<^verbatim>\<open>set(xs)\<close> hashes every element, and raises \<^verbatim>\<open>TypeError\<close> at one that cannot be
  hashed.
\<close>

definition py_set :: "'v objects \<Rightarrow> ref list \<Rightarrow> py_error + ref set" where
  "py_set ob xs =
     (if list_all (\<lambda>r. hashable (ob r)) xs then Inr (set xs)
      else Inl (TypeError ''unhashable type''))"

text \<open>
  Membership in a set: some element of the set is the object \<open>e\<close> itself or equal to it
  by the \<^verbatim>\<open>__eq__\<close> of the enumeration, which is the parameter \<open>eq\<close> (for a plain
  \<^verbatim>\<open>Enum\<close> it holds of no two different objects). Equal objects are taken to have equal
  hashes, as Python requires.
\<close>

definition py_in :: "(ref \<Rightarrow> ref \<Rightarrow> bool) \<Rightarrow> ref set \<Rightarrow> ref \<Rightarrow> bool" where
  "py_in eq final_set e = (\<exists>f \<in> final_set. f = e \<or> eq f e)"

text \<open>
  \<^verbatim>\<open>e in final_set\<close>: \<open>e\<close> is hashed first, also when the set is empty, which raises
  \<^verbatim>\<open>TypeError\<close> when \<open>e\<close> cannot be hashed.
\<close>

definition py_contains ::
  "'v objects \<Rightarrow> (ref \<Rightarrow> ref \<Rightarrow> bool) \<Rightarrow> ref set \<Rightarrow> ref \<Rightarrow> py_error + bool" where
  "py_contains ob eq final_set e =
     (if hashable (ob e) then Inr (py_in eq final_set e)
      else Inl (TypeError ''unhashable type''))"

text \<open>
  The dictionary comprehension of \<^verbatim>\<open>from_enum\<close>, one constant at a time: the key
  \<^verbatim>\<open>e.name\<close> is read first, then the arguments of \<^verbatim>\<open>State(...)\<close>, and the entry is
  stored under the key. The arguments are evaluated in their order: \<^verbatim>\<open>value\<close>, where
  a missing attribute raises \<^verbatim>\<open>AttributeError\<close>, then \<^verbatim>\<open>initial\<close>, then
  \<^verbatim>\<open>final\<close>, where a constant that cannot be hashed raises \<^verbatim>\<open>TypeError\<close>; an
  exception ends the comprehension. The module passes no \<^verbatim>\<open>id\<close> to
  \<^verbatim>\<open>State(...)\<close>: the entity gets the id that the class \<^verbatim>\<open>State\<close> gives an entity
  constructed without one, which the module does not tell; it is the parameter
  \<open>no_id\<close>.
\<close>

fun enum_states ::
  "'v objects \<Rightarrow> (ref \<Rightarrow> ref \<Rightarrow> bool) \<Rightarrow> string \<Rightarrow> ref \<Rightarrow> ref set \<Rightarrow> bool \<Rightarrow> ref list \<Rightarrow>
   (string, 'v py_value State) dict \<Rightarrow> py_error + (string, 'v py_value State) dict" where
  "enum_states ob eq no_id initial_c final_set use_enum_instance [] acc = Inr acc"
| "enum_states ob eq no_id initial_c final_set use_enum_instance (e # es) acc =
     (case attr_name (ob e) of
        None \<Rightarrow> Inl (AttributeError ''name'')
      | Some n \<Rightarrow>
          (case (if use_enum_instance then Inr (Instance e)
                 else (case attr_value (ob e) of
                         None \<Rightarrow> Inl (AttributeError ''value'')
                       | Some v \<Rightarrow> Inr (Scalar v))) of
             Inl err \<Rightarrow> Inl err
           | Inr v \<Rightarrow>
               (case py_contains ob eq final_set e of
                  Inl err \<Rightarrow> Inl err
                | Inr f \<Rightarrow>
                    enum_states ob eq no_id initial_c final_set use_enum_instance es
                      (dict_setitem acc n
                         \<lparr>state_id = no_id, state_value = v,
                          initial = (e = initial_c), final = f\<rparr>))))"

text \<open>
  \<^verbatim>\<open>from_enum(cls, enum_type, initial, final=None, use_enum_instance=False)\<close>. The
  set of final constants is built first; then the comprehension runs over the
  enumeration, which raises \<^verbatim>\<open>TypeError\<close> when that cannot be iterated, and
  \<^verbatim>\<open>cls(...)\<close> is called on the finished dictionary.
\<close>

definition from_enum ::
  "'v objects \<Rightarrow> (ref \<Rightarrow> ref \<Rightarrow> bool) \<Rightarrow> string \<Rightarrow> enum_arg \<Rightarrow> ref \<Rightarrow> final_arg \<Rightarrow> bool \<Rightarrow>
   py_error + 'v py_value States" where
  "from_enum ob eq no_id enum_type initial_c final_c use_enum_instance =
     (case py_set ob (ensure_iterable final_c) of
        Inl err \<Rightarrow> Inl err
      | Inr final_set \<Rightarrow>
          (case enum_type of
             NotAnEnum \<Rightarrow> Inl (TypeError ''object is not iterable'')
           | Members es \<Rightarrow>
               (case enum_states ob eq no_id initial_c final_set use_enum_instance es [] of
                  Inl err \<Rightarrow> Inl err
                | Inr d \<Rightarrow> States_init (Some d))))"

text \<open>
  An enumeration as Python's \<^verbatim>\<open>Enum\<close> makes it: every member has a name and a value
  and can be hashed, and no two members share a name.
\<close>

definition is_enum :: "'v objects \<Rightarrow> ref list \<Rightarrow> bool" where
  "is_enum ob es =
     (list_all (\<lambda>e. attr_name (ob e) \<noteq> None \<and> attr_value (ob e) \<noteq> None \<and> hashable (ob e)) es
      \<and> distinct (map (\<lambda>e. attr_name (ob e)) es))"

text \<open>Every constant of the final selector can be hashed.\<close>

definition finals_hashable :: "'v objects \<Rightarrow> final_arg \<Rightarrow> bool" where
  "finals_hashable ob final_c = list_all (\<lambda>r. hashable (ob r)) (ensure_iterable final_c)"

text \<open>
  The entry the comprehension makes for a member \<open>e\<close> that has the attributes it reads:
  the key and the arguments of \<^verbatim>\<open>State(...)\<close>, used to state what \<^verbatim>\<open>from_enum\<close>
  returns.
\<close>

definition member_name :: "'v objects \<Rightarrow> ref \<Rightarrow> string" where
  "member_name ob e = the (attr_name (ob e))"

definition member_state ::
  "'v objects \<Rightarrow> (ref \<Rightarrow> ref \<Rightarrow> bool) \<Rightarrow> string \<Rightarrow> ref \<Rightarrow> ref set \<Rightarrow> bool \<Rightarrow> ref \<Rightarrow>
   'v py_value State" where
  "member_state ob eq no_id initial_c final_set use_enum_instance e =
     \<lparr>state_id = no_id,
      state_value = (if use_enum_instance then Instance e else Scalar (the (attr_value (ob e)))),
      initial = (e = initial_c),
      final = py_in eq final_set e\<rparr>"

text \<open>
  The exception the comprehension raises at a member, if any, by the order in which the
  member's attributes are read and the member is hashed.
\<close>

definition member_error :: "'v objects \<Rightarrow> bool \<Rightarrow> ref \<Rightarrow> py_error option" where
  "member_error ob use_enum_instance e =
     (if attr_name (ob e) = None then Some (AttributeError ''name'')
      else if \<not> use_enum_instance \<and> attr_value (ob e) = None then Some (AttributeError ''value'')
      else if \<not> hashable (ob e) then Some (TypeError ''unhashable type'')
      else None)"

text \<open>A member the comprehension processes without an exception.\<close>

definition processable :: "'v objects \<Rightarrow> bool \<Rightarrow> ref \<Rightarrow> bool" where
  "processable ob use_enum_instance e = (member_error ob use_enum_instance e = None)"

text \<open>
  A mapping as the docstring of \<^verbatim>\<open>__init__\<close> asks for it: every key is the
  \<^verbatim>\<open>id\<close> of the entity stored under it.
\<close>

definition keyed_by_id :: "(string, 'v State) dict \<Rightarrow> bool" where
  "keyed_by_id d = list_all (\<lambda>(k, st). k = state_id st) d"

subsection \<open>Example registries\<close>

text \<open>
  The registry \<open>[A, B, C]\<close> of section 8 of the specification, and an entity \<open>B'\<close>
  with the \<^verbatim>\<open>id\<close> of \<open>B\<close> and another value.
\<close>

definition ent_A :: "nat State" where
  "ent_A = \<lparr>state_id = ''A'', state_value = 1, initial = True, final = False\<rparr>"

definition ent_B :: "nat State" where
  "ent_B = \<lparr>state_id = ''B'', state_value = 2, initial = False, final = False\<rparr>"

definition ent_B' :: "nat State" where
  "ent_B' = \<lparr>state_id = ''B'', state_value = 20, initial = False, final = False\<rparr>"

definition ent_C :: "nat State" where
  "ent_C = \<lparr>state_id = ''C'', state_value = 3, initial = False, final = True\<rparr>"

definition reg_ABC :: "nat States" where
  "reg_ABC = \<lparr>states_of = [(''A'', ent_A), (''B'', ent_B), (''C'', ent_C)]\<rparr>"

definition ent_append :: "nat State" where
  "ent_append = \<lparr>state_id = ''append'', state_value = 7, initial = False, final = False\<rparr>"

definition map_AB :: "(string, nat State) dict" where
  "map_AB = [(''A'', ent_A), (''B'', ent_B)]"

text \<open>The entities of \<open>map_AB\<close> under keys that are not their ids.\<close>

definition map_xy :: "(string, nat State) dict" where
  "map_xy = [(''x'', ent_A), (''y'', ent_B)]"

text \<open>
  The enumeration \<^verbatim>\<open>Status\<close> of the docstring of \<^verbatim>\<open>from_enum\<close>: \<^verbatim>\<open>pending = 1\<close>
  is object 0 and \<^verbatim>\<open>completed = 2\<close> is object 1. Object 2 is another object with the
  name and value of \<^verbatim>\<open>pending\<close> (a member of another enumeration, say). Object 3
  has a name and a value and cannot be hashed (a member of an enumeration that defines
  \<^verbatim>\<open>__eq__\<close> and no \<^verbatim>\<open>__hash__\<close>). Every other object has neither attribute.
\<close>

definition status_objects :: "nat objects" where
  "status_objects r =
     (if r = 0 \<or> r = 2
      then \<lparr>attr_name = Some ''pending'', attr_value = Some 1, hashable = True\<rparr>
      else if r = 1
      then \<lparr>attr_name = Some ''completed'', attr_value = Some 2, hashable = True\<rparr>
      else if r = 3
      then \<lparr>attr_name = Some ''draft'', attr_value = Some 3, hashable = False\<rparr>
      else \<lparr>attr_name = None, attr_value = None, hashable = True\<rparr>)"

text \<open>Equality of two objects by what they hold, as opposed to being the same object.\<close>

definition same_contents :: "'v objects \<Rightarrow> ref \<Rightarrow> ref \<Rightarrow> bool" where
  "same_contents ob a b = (ob a = ob b)"

section \<open>Properties\<close>

subsection \<open>Dictionaries\<close>

lemma dict_setitem_split:
  "k \<notin> fst ` set xs \<Longrightarrow> dict_setitem (xs @ (k, old) # ys) k x = xs @ (k, x) # ys"
  by (induction xs) auto

lemma dict_contains_split:
  "dict_contains d k \<Longrightarrow> \<exists>xs old ys. d = xs @ (k, old) # ys \<and> k \<notin> fst ` set xs"
proof (induction d)
  case Nil
  then show ?case by (simp add: dict_contains_def)
next
  case (Cons p d)
  show ?case
  proof (cases "fst p = k")
    case True
    then have "p # d = [] @ (k, snd p) # d \<and> k \<notin> fst ` set []" by auto
    then show ?thesis by blast
  next
    case False
    with Cons.prems have "dict_contains d k" by (auto simp: dict_contains_def)
    with Cons.IH obtain xs old ys where "d = xs @ (k, old) # ys" "k \<notin> fst ` set xs" by blast
    with False have "p # d = (p # xs) @ (k, old) # ys \<and> k \<notin> fst ` set (p # xs)" by auto
    then show ?thesis by blast
  qed
qed

lemma dict_getitem_in: "dict_getitem d k = Some x \<Longrightarrow> (k, x) \<in> set d"
  by (induction d) (auto split: if_splits)

lemma dict_getitem_contains: "dict_contains d k \<Longrightarrow> \<exists>x. dict_getitem d k = Some x"
  by (induction d) (force simp: dict_contains_def)+

lemma dict_getitem_entry: "is_dict d \<Longrightarrow> (k, x) \<in> set d \<Longrightarrow> dict_getitem d k = Some x"
proof (induction d)
  case Nil
  then show ?case by simp
next
  case (Cons p d)
  obtain k' y where p: "p = (k', y)" by (cases p)
  show ?case
  proof (cases "k' = k")
    case True
    with Cons.prems p have "(k, x) \<notin> set d"
      by (auto simp: is_dict_def image_iff)
    with Cons.prems p True show ?thesis by simp
  next
    case False
    with Cons p show ?thesis by (simp add: is_dict_def)
  qed
qed

lemma keyed_by_id_entry:
  "keyed_by_id d \<Longrightarrow> st \<in> set (dict_values d) \<Longrightarrow> (state_id st, st) \<in> set d"
  by (auto simp: keyed_by_id_def dict_values_def list_all_iff)

lemma keyed_keys: "keyed_by_id d \<Longrightarrow> map fst d = map state_id (dict_values d)"
  by (induction d) (auto simp: keyed_by_id_def dict_values_def)

lemma keyed_distinct_values:
  assumes "is_dict d" and "keyed_by_id d"
  shows "distinct (dict_values d)"
proof -
  from assms have "distinct (map state_id (dict_values d))"
    by (simp add: is_dict_def keyed_keys)
  then show ?thesis by (simp add: distinct_map)
qed

lemma rev_neq_distinct:
  assumes "distinct xs" and "2 \<le> length xs"
  shows "rev xs \<noteq> xs"
proof
  assume r: "rev xs = xs"
  from assms(2) obtain x y zs where xs: "xs = x # y # zs"
    by (cases xs; cases "tl xs") auto
  have "hd (rev xs) = last xs" using xs by (simp add: hd_rev)
  with r have "hd xs = last xs" by simp
  with xs have "x = last (y # zs)" by simp
  then have "x \<in> set (y # zs)" using last_in_set [of "y # zs"] by simp
  with assms(1) xs show False by simp
qed

subsection \<open>Iterators and lists\<close>

lemma py_list_fst: "fst (py_list a h) = drop (pos (objs h a)) (over (objs h a))"
proof (induction a h rule: py_list.induct)
  case (1 a h)
  let ?it = "objs h a"
  show ?case
  proof (cases "pos ?it < length (over ?it)")
    case True
    define h' where "h' = h\<lparr>objs := (objs h)(a := ?it\<lparr>pos := Suc (pos ?it)\<rparr>)\<rparr>"
    have nx: "py_next a h = (Inr (over ?it ! pos ?it), h')"
      using True by (simp add: py_next_def Let_def h'_def)
    have "fst (py_list a h') = drop (pos (objs h' a)) (over (objs h' a))"
      using "1.IH" [OF nx [symmetric] refl] .
    then have ih: "fst (py_list a h') = drop (Suc (pos ?it)) (over ?it)"
      by (simp add: h'_def)
    have "fst (py_list a h) = over ?it ! pos ?it # fst (py_list a h')"
      by (subst py_list.simps) (simp add: nx split: prod.splits)
    with ih True show ?thesis by (simp add: Cons_nth_drop_Suc)
  next
    case False
    then have "py_next a h = (Inl StopIteration, h)"
      by (simp add: py_next_def Let_def)
    then have "fst (py_list a h) = []"
      by (subst py_list.simps) simp
    with False show ?thesis by simp
  qed
qed

lemma py_list_fresh: "py_iter xs h = (a, h') \<Longrightarrow> fst (py_list a h') = xs"
  by (auto simp: py_iter_def py_list_fst)

lemma list_States_values: "list_States self = dict_values (states_of self)"
  by (simp add: list_States_def States_iter_def py_iter_def py_list_fst split: prod.splits)

lemma py_list_eq_iff: "py_list_eq xs ys = (xs = ys)"
  by (induction xs ys rule: py_list_eq.induct) auto

lemma States_eq_OfStates:
  "States_eq s (OfStates t) = Inr (dict_values (states_of s) = dict_values (states_of t))"
  by (simp add: States_eq_def list_other_def list_States_values py_list_eq_iff)

lemma States_eq_OfList:
  "States_eq s (OfList xs) = Inr (dict_values (states_of s) = xs)"
  by (simp add: States_eq_def list_other_def list_States_values py_list_eq_iff)

lemma py_next_next_free: "next_free (snd (py_next a h)) = next_free h"
  by (simp add: py_next_def Let_def)

lemma py_next_over: "over (objs (snd (py_next a h)) a) = over (objs h a)"
  by (simp add: py_next_def Let_def)

lemma py_next_pos:
  "pos (objs (snd (py_next a h)) a) =
     (if pos (objs h a) < length (over (objs h a)) then Suc (pos (objs h a)) else pos (objs h a))"
  by (simp add: py_next_def Let_def)

lemma py_next_times_next_free: "next_free (py_next_times k a h) = next_free h"
  by (induction k arbitrary: h) (simp_all add: py_next_next_free)

lemma py_next_times_over: "over (objs (py_next_times k a h) a) = over (objs h a)"
  by (induction k arbitrary: h) (simp_all add: py_next_over)

lemma py_next_times_pos:
  "pos (objs h a) \<le> length (over (objs h a)) \<Longrightarrow>
   pos (objs (py_next_times k a h) a) = min (pos (objs h a) + k) (length (over (objs h a)))"
proof (induction k arbitrary: h)
  case 0
  then show ?case by simp
next
  case (Suc k)
  let ?h = "snd (py_next a h)"
  have "pos (objs ?h a) \<le> length (over (objs ?h a))"
    using Suc.prems by (simp add: py_next_over py_next_pos)
  from Suc.IH [OF this] Suc.prems show ?case
    by (simp add: py_next_over py_next_pos)
qed

lemma py_list_after_next_times:
  assumes "py_iter xs h = (a, h1)"
  shows "fst (py_list a (py_next_times k a h1)) = drop k xs"
proof -
  from assms have it: "over (objs h1 a) = xs" "pos (objs h1 a) = 0"
    by (auto simp: py_iter_def)
  then have "pos (objs (py_next_times k a h1) a) = min k (length xs)"
    using py_next_times_pos [of h1 a k] by simp
  then show ?thesis
    by (simp add: py_list_fst py_next_times_over it min_def)
qed

subsection \<open>The comprehension of from_enum\<close>

lemma dict_setitem_fresh: "k \<notin> fst ` set d \<Longrightarrow> dict_setitem d k x = d @ [(k, x)]"
  by (induction d) auto

lemma enum_states_processable:
  "list_all (processable ob flag) es \<Longrightarrow>
   enum_states ob eq no_id ini fs flag es acc =
     Inr (fold (\<lambda>e d. dict_setitem d (member_name ob e) (member_state ob eq no_id ini fs flag e))
            es acc)"
proof (induction es arbitrary: acc)
  case Nil
  then show ?case by simp
next
  case (Cons e es)
  from Cons.prems have r: "processable ob flag e" and rs: "list_all (processable ob flag) es"
    by simp_all
  from r obtain n where n: "attr_name (ob e) = Some n" and h: "hashable (ob e)"
    by (auto simp: processable_def member_error_def split: if_splits)
  show ?case
  proof (cases flag)
    case True
    with n h Cons.IH [OF rs] show ?thesis
      by (simp add: member_state_def member_name_def py_contains_def)
  next
    case False
    with r obtain v where "attr_value (ob e) = Some v"
      by (auto simp: processable_def member_error_def split: if_splits)
    with False n h Cons.IH [OF rs] show ?thesis
      by (simp add: member_state_def member_name_def py_contains_def)
  qed
qed

lemma enum_states_member_error:
  "member_error ob flag e = Some err \<Longrightarrow>
   enum_states ob eq no_id ini fs flag (e # ys) acc = Inl err"
  by (auto simp: member_error_def py_contains_def split: if_splits option.splits)

lemma enum_states_first_error:
  "list_all (processable ob flag) xs \<Longrightarrow> member_error ob flag e = Some err \<Longrightarrow>
   enum_states ob eq no_id ini fs flag (xs @ e # ys) acc = Inl err"
proof (induction xs arbitrary: acc)
  case Nil
  then show ?case by (simp only: append_Nil enum_states_member_error)
next
  case (Cons x xs)
  from Cons.prems have r: "processable ob flag x" and rs: "list_all (processable ob flag) xs"
    by simp_all
  from r obtain n where n: "attr_name (ob x) = Some n" and h: "hashable (ob x)"
    by (auto simp: processable_def member_error_def split: if_splits)
  show ?case
  proof (cases flag)
    case True
    with n h Cons.IH [OF rs Cons.prems(2)] show ?thesis
      by (simp add: py_contains_def)
  next
    case False
    with r obtain v where "attr_value (ob x) = Some v"
      by (auto simp: processable_def member_error_def split: if_splits)
    with False n h Cons.IH [OF rs Cons.prems(2)] show ?thesis
      by (simp add: py_contains_def)
  qed
qed

lemma fold_setitem_fresh:
  "distinct (map f es) \<Longrightarrow> f ` set es \<inter> fst ` set acc = {} \<Longrightarrow>
   fold (\<lambda>e d. dict_setitem d (f e) (g e)) es acc = acc @ map (\<lambda>e. (f e, g e)) es"
proof (induction es arbitrary: acc)
  case Nil
  then show ?case by simp
next
  case (Cons e es)
  from Cons.prems have fresh: "f e \<notin> fst ` set acc" by auto
  have "f ` set es \<inter> fst ` set (acc @ [(f e, g e)]) = {}"
    using Cons.prems by auto
  with Cons.prems Cons.IH [of "acc @ [(f e, g e)]"] fresh show ?case
    by (simp add: dict_setitem_fresh)
qed

lemma is_enum_names:
  assumes "is_enum ob es"
  shows "distinct (map (member_name ob) es)"
    and "list_all (processable ob flag) es"
    and "\<And>e. e \<in> set es \<Longrightarrow> attr_name (ob e) = Some (member_name ob e)"
    and "\<And>e. e \<in> set es \<Longrightarrow> attr_value (ob e) = Some (the (attr_value (ob e)))"
proof -
  from assms have all: "\<And>e. e \<in> set es \<Longrightarrow>
      attr_name (ob e) \<noteq> None \<and> attr_value (ob e) \<noteq> None \<and> hashable (ob e)"
    and dist: "distinct (map (\<lambda>e. attr_name (ob e)) es)"
    by (auto simp: is_enum_def list_all_iff)
  have "map (\<lambda>e. attr_name (ob e)) es = map Some (map (member_name ob) es)"
    using all by (auto simp: member_name_def)
  with dist show "distinct (map (member_name ob) es)"
    by (metis distinct_map)
  show "list_all (processable ob flag) es"
    using all by (auto simp: list_all_iff processable_def member_error_def)
  show "\<And>e. e \<in> set es \<Longrightarrow> attr_name (ob e) = Some (member_name ob e)"
    using all by (auto simp: member_name_def)
  show "\<And>e. e \<in> set es \<Longrightarrow> attr_value (ob e) = Some (the (attr_value (ob e)))"
    using all by auto
qed

lemma from_enum_is_enum:
  assumes "is_enum ob es" and "finals_hashable ob fin"
  shows "from_enum ob eq no_id (Members es) ini fin flag =
           Inr \<lparr>states_of = map (\<lambda>e. (member_name ob e,
                  member_state ob eq no_id ini (set (ensure_iterable fin)) flag e)) es\<rparr>"
proof -
  note e = is_enum_names [OF assms(1)]
  from assms(2) have "py_set ob (ensure_iterable fin) = Inr (set (ensure_iterable fin))"
    by (simp add: py_set_def finals_hashable_def)
  then show ?thesis
    by (simp add: from_enum_def enum_states_processable [OF e(2)]
        fold_setitem_fresh [OF e(1)] States_init_def)
qed

lemma getattr_member:
  assumes "is_enum ob es" and "e \<in> set es"
  shows "States_getattr \<lparr>states_of = map (\<lambda>e. (member_name ob e, g e)) es\<rparr> (member_name ob e)
         = Inr (g e)"
proof -
  let ?d = "map (\<lambda>e. (member_name ob e, g e)) es"
  have "is_dict ?d"
    unfolding is_dict_def using is_enum_names(1) [OF assms(1)] by (simp add: comp_def)
  moreover have "(member_name ob e, g e) \<in> set ?d"
    using assms(2) by auto
  ultimately have "dict_getitem ?d (member_name ob e) = Some (g e)"
    by (rule dict_getitem_entry)
  moreover have "dict_contains ?d (member_name ob e)"
    using assms(2) by (force simp: dict_contains_def)
  ultimately show ?thesis by (simp add: States_getattr_def)
qed

lemma py_in_identity: "(\<forall>a b. eq a b \<longrightarrow> a = b) \<Longrightarrow> py_in eq S e = (e \<in> S)"
  by (auto simp: py_in_def)

subsection \<open>Appending an entity whose id is already a key\<close>

text \<open>
  C1. When the \<^verbatim>\<open>id\<close> of \<open>e\<close> is already a key of the registry, \<^verbatim>\<open>append(e)\<close>
  puts \<open>e\<close> in the place of the entity stored under that key: the entries before and
  after it stay as they are, in their order, so the registry iterates as before with
  \<open>e\<close> at the old entity's position. In a dictionary (no key twice) the key does not
  occur among the entries after it either.
\<close>

theorem append_existing_replaces_in_place:
  assumes "dict_contains (states_of self) (state_id e)"
  shows "\<exists>xs old ys.
           States_items self = xs @ (state_id e, old) # ys
         \<and> state_id e \<notin> fst ` set xs
         \<and> (is_dict (states_of self) \<longrightarrow> state_id e \<notin> fst ` set ys)
         \<and> States_items (States_append self e) = xs @ (state_id e, e) # ys
         \<and> list_States self = dict_values xs @ old # dict_values ys
         \<and> list_States (States_append self e) = dict_values xs @ e # dict_values ys"
proof -
  from dict_contains_split [OF assms]
  obtain xs old ys where d: "states_of self = xs @ (state_id e, old) # ys"
    and nin: "state_id e \<notin> fst ` set xs" by blast
  have upd: "states_of (States_append self e) = xs @ (state_id e, e) # ys"
    by (simp add: States_append_def d dict_setitem_split [OF nin])
  have "is_dict (states_of self) \<longrightarrow> state_id e \<notin> fst ` set ys"
    by (auto simp: is_dict_def d)
  with d nin upd have
    "States_items self = xs @ (state_id e, old) # ys
     \<and> state_id e \<notin> fst ` set xs
     \<and> (is_dict (states_of self) \<longrightarrow> state_id e \<notin> fst ` set ys)
     \<and> States_items (States_append self e) = xs @ (state_id e, e) # ys
     \<and> list_States self = dict_values xs @ old # dict_values ys
     \<and> list_States (States_append self e) = dict_values xs @ e # dict_values ys"
    by (simp add: States_items_def list_States_values dict_values_def)
  then show ?thesis by blast
qed

theorem append_existing_replaces_in_place_witness:
  "dict_contains (states_of reg_ABC) (state_id ent_B')
   \<and> list_States reg_ABC = [ent_A, ent_B, ent_C]
   \<and> list_States (States_append reg_ABC ent_B') = [ent_A, ent_B', ent_C]
   \<and> list_States (States_append reg_ABC ent_B') \<noteq> [ent_A, ent_C, ent_B']"
proof -
  have h: "dict_contains (states_of reg_ABC) (state_id ent_B')"
    by (simp add: dict_contains_def reg_ABC_def ent_B'_def)
  have "list_States (States_append reg_ABC ent_B') = [ent_A, ent_B', ent_C]"
    by (simp add: list_States_values States_append_def reg_ABC_def ent_B'_def dict_values_def)
  moreover have "list_States reg_ABC = [ent_A, ent_B, ent_C]"
    by (simp add: list_States_values reg_ABC_def dict_values_def)
  moreover have "ent_B' \<noteq> ent_C"
    by (simp add: ent_B'_def ent_C_def)
  ultimately show ?thesis
    using h append_existing_replaces_in_place [OF h] by simp
qed

subsection \<open>Lookup by name\<close>

text \<open>
  C2, as the code has it. \<^verbatim>\<open>__getattr__\<close> looks \<open>name\<close> up among the keys of the
  dictionary. A name that is no key raises \<^verbatim>\<open>AttributeError\<close>, Python's own signal
  for a missing attribute, with the message \<^verbatim>\<open>"<name> not found in States"\<close>; there is
  no error kind of the registry's own. A name that is a key returns the entity stored
  under it; where every key is the id of its entity, that is the entity whose id is
  \<open>name\<close>.
\<close>

theorem getattr_raises_AttributeError:
  "(\<not> dict_contains (states_of self) name \<longrightarrow>
      States_getattr self name = Inl (AttributeError (name @ '' not found in States'')))
   \<and> (is_dict (states_of self) \<and> (name, st) \<in> set (states_of self) \<longrightarrow>
      States_getattr self name = Inr st)
   \<and> (is_dict (states_of self) \<and> keyed_by_id (states_of self)
        \<and> st \<in> set (list_States self) \<and> state_id st = name \<longrightarrow>
      States_getattr self name = Inr st)"
proof -
  have found: "States_getattr self name = Inr st"
    if "is_dict (states_of self)" and "(name, st) \<in> set (states_of self)"
  proof -
    from that have "dict_getitem (states_of self) name = Some st"
      by (rule dict_getitem_entry)
    moreover from that(2) have "dict_contains (states_of self) name"
      by (force simp: dict_contains_def)
    ultimately show ?thesis by (simp add: States_getattr_def)
  qed
  have "States_getattr self name = Inr st"
    if "is_dict (states_of self)" and "keyed_by_id (states_of self)"
      and "st \<in> set (list_States self)" and "state_id st = name"
    using that found keyed_by_id_entry [of "states_of self" st]
    by (simp add: list_States_values)
  with found show ?thesis by (simp add: States_getattr_def)
qed

theorem getattr_raises_AttributeError_witness:
  "\<not> dict_contains (states_of reg_ABC) ''missing''
   \<and> States_getattr reg_ABC ''missing'' = Inl (AttributeError ''missing not found in States'')
   \<and> is_dict (states_of reg_ABC) \<and> keyed_by_id (states_of reg_ABC)
   \<and> (''B'', ent_B) \<in> set (states_of reg_ABC)
   \<and> ent_B \<in> set (list_States reg_ABC) \<and> state_id ent_B = ''B''
   \<and> States_getattr reg_ABC ''B'' = Inr ent_B"
proof -
  have 1: "\<not> dict_contains (states_of reg_ABC) ''missing''"
    by (simp add: dict_contains_def reg_ABC_def)
  have 2: "is_dict (states_of reg_ABC)"
    by (simp add: is_dict_def reg_ABC_def)
  have 3: "(''B'', ent_B) \<in> set (states_of reg_ABC)"
    by (simp add: reg_ABC_def)
  have 4: "keyed_by_id (states_of reg_ABC)"
    by (simp add: keyed_by_id_def reg_ABC_def ent_A_def ent_B_def ent_C_def)
  have 5: "ent_B \<in> set (list_States reg_ABC)"
    by (simp add: list_States_values dict_values_def reg_ABC_def)
  have 6: "state_id ent_B = ''B''"
    by (simp add: ent_B_def)
  show ?thesis
    using 1 2 3 4 5 6
      getattr_raises_AttributeError [of reg_ABC "''missing''" ent_B]
      getattr_raises_AttributeError [of reg_ABC "''B''" ent_B]
    by simp
qed

text \<open>
  The claim as stated fails: looking up the unregistered name \<^verbatim>\<open>missing\<close> in the
  registry \<open>[A, B, C]\<close> raises \<^verbatim>\<open>AttributeError\<close>.
\<close>

theorem getattr_not_found_counterexample:
  "\<not> dict_contains (states_of reg_ABC) ''missing''
   \<and> States_getattr reg_ABC ''missing'' = Inl (AttributeError ''missing not found in States'')
   \<and> is_AttributeError (AttributeError ''missing not found in States'')"
  by (simp add: States_getattr_def dict_contains_def reg_ABC_def is_AttributeError_def)

subsection \<open>Iteration order and restart\<close>

text \<open>
  C3. A registry constructed from a mapping \<open>d\<close> iterates over the entities of \<open>d\<close> in
  the order of \<open>d\<close>, and the traversal ends after as many entries as \<open>d\<close> has. Every
  call of \<^verbatim>\<open>__iter__\<close> returns a new iterator at the first entry: after \<open>k\<close> steps
  of an iterator \<open>a\<close>, a second call returns another iterator \<open>b\<close> that yields the whole
  sequence from its first entry, while \<open>a\<close> goes on from where it stood.
\<close>

theorem iteration_in_insertion_order_restartable:
  assumes "States_init (Some d) = Inr self"
    and "States_iter self h = (a, h1)"
    and "States_iter self (py_next_times k a h1) = (b, h2)"
  shows "list_States self = dict_values d
         \<and> fst (py_list a h1) = dict_values d
         \<and> length (fst (py_list a h1)) = length d
         \<and> b \<noteq> a
         \<and> fst (py_list b h2) = dict_values d
         \<and> fst (py_next b h2) = (case d of [] \<Rightarrow> Inl StopIteration | (_, st) # _ \<Rightarrow> Inr st)
         \<and> fst (py_list a h2) = drop k (dict_values d)"
proof -
  let ?xs = "dict_values d"
  from assms(1) have self: "states_of self = d"
    by (auto simp: States_init_def)
  from assms(2) have a: "py_iter ?xs h = (a, h1)"
    by (simp add: States_iter_def self)
  from assms(3) have b: "py_iter ?xs (py_next_times k a h1) = (b, h2)"
    by (simp add: States_iter_def self)
  have 1: "list_States self = ?xs"
    by (simp add: list_States_values self)
  have 2: "fst (py_list a h1) = ?xs"
    using a by (rule py_list_fresh)
  have "a = next_free h" "next_free h1 = Suc (next_free h)"
    using a by (auto simp: py_iter_def)
  moreover have bn: "b = next_free (py_next_times k a h1)"
    using b by (auto simp: py_iter_def)
  ultimately have 3: "b \<noteq> a"
    by (simp add: py_next_times_next_free)
  have 4: "fst (py_list b h2) = ?xs"
    using b by (rule py_list_fresh)
  have bo: "over (objs h2 b) = ?xs" "pos (objs h2 b) = 0"
    using b by (auto simp: py_iter_def)
  have 5: "fst (py_next b h2) = (case d of [] \<Rightarrow> Inl StopIteration | (_, st) # _ \<Rightarrow> Inr st)"
    by (simp add: py_next_def Let_def bo dict_values_def split: list.splits)
  have "objs h2 a = objs (py_next_times k a h1) a"
    using b 3 by (auto simp: py_iter_def)
  then have "fst (py_list a h2) = fst (py_list a (py_next_times k a h1))"
    by (simp add: py_list_fst)
  then have 6: "fst (py_list a h2) = drop k ?xs"
    by (simp add: py_list_after_next_times [OF a])
  from 1 2 3 4 5 6 show ?thesis by (simp add: dict_values_def)
qed

theorem iteration_in_insertion_order_restartable_witness:
  "States_init (Some (states_of reg_ABC)) = Inr reg_ABC
   \<and> fst (States_iter reg_ABC empty_store) = 0
   \<and> fst (States_iter reg_ABC (py_next_times 2 0 (snd (States_iter reg_ABC empty_store)))) = 1
   \<and> fst (py_list 1 (snd (States_iter reg_ABC (py_next_times 2 0 (snd (States_iter reg_ABC empty_store))))))
       = [ent_A, ent_B, ent_C]
   \<and> fst (py_list 0 (snd (States_iter reg_ABC (py_next_times 2 0 (snd (States_iter reg_ABC empty_store))))))
       = [ent_C]"
proof -
  define h1 where "h1 = snd (States_iter reg_ABC empty_store)"
  define h2 where "h2 = snd (States_iter reg_ABC (py_next_times 2 0 h1))"
  have 1: "States_init (Some (states_of reg_ABC)) = Inr reg_ABC"
    by (simp add: States_init_def)
  have 2: "States_iter reg_ABC empty_store = (0, h1)"
    by (simp add: h1_def States_iter_def py_iter_def empty_store_def)
  have "next_free (py_next_times 2 0 h1) = 1"
    by (simp add: py_next_times_next_free) (simp add: h1_def States_iter_def py_iter_def empty_store_def)
  then have 3: "States_iter reg_ABC (py_next_times 2 0 h1) = (1, h2)"
    by (simp add: h2_def States_iter_def py_iter_def)
  have v: "dict_values (states_of reg_ABC) = [ent_A, ent_B, ent_C]"
    by (simp add: dict_values_def reg_ABC_def)
  from iteration_in_insertion_order_restartable [OF 1 2 3]
  have "fst (py_list 1 h2) = [ent_A, ent_B, ent_C]" and "fst (py_list 0 h2) = [ent_C]"
    by (simp_all add: v)
  with 2 3 1 show ?thesis
    by (simp add: h1_def [symmetric] h2_def [symmetric])
qed

subsection \<open>Equality\<close>

text \<open>
  C4. Two registries compare equal exactly when their iteration sequences have the same
  length and equal entities at every position. Two registries constructed from the same
  mapping compare equal. Against a registry constructed from the reversed mapping the
  comparison gives whether the sequence of entities reads the same in both directions: it
  is unequal whenever reversing changes the sequence, as it does for every mapping with at
  least two entries whose keys are the ids of its entities.
\<close>

theorem eq_iff_sequences_equal:
  "States_eq s (OfStates t) =
     Inr (length (list_States s) = length (list_States t)
          \<and> (\<forall>i < length (list_States s). list_States s ! i = list_States t ! i))
   \<and> (States_init (Some d) = Inr s \<and> States_init (Some d) = Inr t \<longrightarrow>
        States_eq s (OfStates t) = Inr True)
   \<and> (States_init (Some d) = Inr s \<and> States_init (Some (rev d)) = Inr t \<longrightarrow>
        States_eq s (OfStates t) = Inr (rev (dict_values d) = dict_values d))
   \<and> (States_init (Some d) = Inr s \<and> States_init (Some (rev d)) = Inr t
        \<and> rev (dict_values d) \<noteq> dict_values d \<longrightarrow>
        States_eq s (OfStates t) = Inr False)
   \<and> (States_init (Some d) = Inr s \<and> States_init (Some (rev d)) = Inr t
        \<and> is_dict d \<and> keyed_by_id d \<and> 2 \<le> length d \<longrightarrow>
        States_eq s (OfStates t) = Inr False)"
proof -
  have 1: "States_eq s (OfStates t) =
     Inr (length (list_States s) = length (list_States t)
          \<and> (\<forall>i < length (list_States s). list_States s ! i = list_States t ! i))"
    by (simp add: States_eq_OfStates list_States_values list_eq_iff_nth_eq)
  have 2: "States_eq s (OfStates t) = Inr True"
    if "States_init (Some d) = Inr s" and "States_init (Some d) = Inr t"
    using that by (auto simp: States_init_def States_eq_OfStates)
  have 3: "States_eq s (OfStates t) = Inr (rev (dict_values d) = dict_values d)"
    if "States_init (Some d) = Inr s" and "States_init (Some (rev d)) = Inr t"
    using that by (auto simp: States_init_def States_eq_OfStates dict_values_def rev_map)
  have 4: "States_eq s (OfStates t) = Inr False"
    if i: "States_init (Some d) = Inr s" "States_init (Some (rev d)) = Inr t"
      and d: "rev (dict_values d) \<noteq> dict_values d"
    using 3 [OF i] d by simp
  have 5: "States_eq s (OfStates t) = Inr False"
    if i: "States_init (Some d) = Inr s" "States_init (Some (rev d)) = Inr t"
      and d: "is_dict d" "keyed_by_id d" "2 \<le> length d"
  proof -
    from d have "distinct (dict_values d)" "2 \<le> length (dict_values d)"
      by (simp_all add: keyed_distinct_values) (simp add: dict_values_def)
    then have "rev (dict_values d) \<noteq> dict_values d"
      by (rule rev_neq_distinct)
    with 4 [OF i] show ?thesis by simp
  qed
  from 1 2 3 4 5 show ?thesis by blast
qed

theorem eq_iff_sequences_equal_witness:
  "States_init (Some map_AB) = Inr \<lparr>states_of = map_AB\<rparr>
   \<and> States_init (Some (rev map_AB)) = Inr \<lparr>states_of = rev map_AB\<rparr>
   \<and> is_dict map_AB \<and> keyed_by_id map_AB \<and> 2 \<le> length map_AB
   \<and> rev (dict_values map_AB) \<noteq> dict_values map_AB
   \<and> States_eq \<lparr>states_of = map_AB\<rparr> (OfStates \<lparr>states_of = map_AB\<rparr>) = Inr True
   \<and> States_eq \<lparr>states_of = map_AB\<rparr> (OfStates \<lparr>states_of = rev map_AB\<rparr>) = Inr False"
proof -
  have 1: "States_init (Some map_AB) = Inr \<lparr>states_of = map_AB\<rparr>"
    and 2: "States_init (Some (rev map_AB)) = Inr \<lparr>states_of = rev map_AB\<rparr>"
    by (simp_all add: States_init_def)
  have 3: "is_dict map_AB" "keyed_by_id map_AB" "2 \<le> length map_AB"
    by (simp_all add: is_dict_def keyed_by_id_def map_AB_def ent_A_def ent_B_def)
  have 4: "States_eq \<lparr>states_of = map_AB\<rparr> (OfStates \<lparr>states_of = map_AB\<rparr>) = Inr True"
    using 1 eq_iff_sequences_equal [of "\<lparr>states_of = map_AB\<rparr>" "\<lparr>states_of = map_AB\<rparr>" map_AB]
    by blast
  have 5: "States_eq \<lparr>states_of = map_AB\<rparr> (OfStates \<lparr>states_of = rev map_AB\<rparr>) = Inr False"
    using 1 2 3
      eq_iff_sequences_equal [of "\<lparr>states_of = map_AB\<rparr>" "\<lparr>states_of = rev map_AB\<rparr>" map_AB]
    by blast
  have 6: "rev (dict_values map_AB) \<noteq> dict_values map_AB"
    by (simp add: dict_values_def map_AB_def ent_A_def ent_B_def)
  have 7: "States_eq \<lparr>states_of = map_AB\<rparr> (OfStates \<lparr>states_of = rev map_AB\<rparr>) = Inr False"
    using 1 2 6
      eq_iff_sequences_equal [of "\<lparr>states_of = map_AB\<rparr>" "\<lparr>states_of = rev map_AB\<rparr>" map_AB]
    by blast
  from 1 2 3 4 5 6 7 show ?thesis by simp
qed

text \<open>
  C10. \<^verbatim>\<open>__eq__\<close> compares the registry's iteration sequence with the sequence of
  any iterable: a registry equals a plain list exactly when the list has the registry's
  entities in the registry's order, and it equals another registry exactly when the two
  sequences of entities are equal. The keys are not compared: two registries with equal
  sequences of entities are equal whatever their keys are.
\<close>

theorem eq_any_iterable_keys_irrelevant:
  "States_eq self (OfList xs) =
     Inr (length (list_States self) = length xs
          \<and> (\<forall>i < length xs. list_States self ! i = xs ! i))
   \<and> States_eq self (OfStates other) = Inr (list_States self = list_States other)
   \<and> (dict_values d = dict_values d' \<longrightarrow>
        States_eq \<lparr>states_of = d\<rparr> (OfStates \<lparr>states_of = d'\<rparr>) = Inr True)"
proof -
  have "States_eq self (OfList xs) =
     Inr (length (list_States self) = length xs
          \<and> (\<forall>i < length xs. list_States self ! i = xs ! i))"
    by (auto simp: States_eq_OfList list_States_values list_eq_iff_nth_eq)
  moreover have "States_eq self (OfStates other) = Inr (list_States self = list_States other)"
    by (simp add: States_eq_OfStates list_States_values)
  moreover have "States_eq \<lparr>states_of = d\<rparr> (OfStates \<lparr>states_of = d'\<rparr>) = Inr True"
    if "dict_values d = dict_values d'"
    using that by (simp add: States_eq_OfStates)
  ultimately show ?thesis by blast
qed

theorem eq_any_iterable_keys_irrelevant_witness:
  "dict_values map_AB = dict_values map_xy
   \<and> map fst map_AB \<noteq> map fst map_xy
   \<and> States_eq \<lparr>states_of = map_AB\<rparr> (OfStates \<lparr>states_of = map_xy\<rparr>) = Inr True
   \<and> States_eq \<lparr>states_of = map_AB\<rparr> (OfList [ent_A, ent_B]) = Inr True
   \<and> States_eq \<lparr>states_of = map_AB\<rparr> (OfList [ent_B, ent_A]) = Inr False"
proof -
  have 1: "dict_values map_AB = dict_values map_xy"
    by (simp add: dict_values_def map_AB_def map_xy_def)
  have 2: "map fst map_AB \<noteq> map fst map_xy"
    by (simp add: map_AB_def map_xy_def)
  have 3: "States_eq \<lparr>states_of = map_AB\<rparr> (OfStates \<lparr>states_of = map_xy\<rparr>) = Inr True"
    using 1
      eq_any_iterable_keys_irrelevant [of "\<lparr>states_of = map_AB\<rparr>" "[]" "\<lparr>states_of = map_xy\<rparr>" map_AB map_xy]
    by blast
  have 4: "States_eq \<lparr>states_of = map_AB\<rparr> (OfList [ent_A, ent_B]) = Inr True"
    by (simp add: States_eq_OfList dict_values_def map_AB_def)
  have 5: "States_eq \<lparr>states_of = map_AB\<rparr> (OfList [ent_B, ent_A]) = Inr False"
    by (simp add: States_eq_OfList dict_values_def map_AB_def ent_A_def ent_B_def)
  from 1 2 3 4 5 show ?thesis by simp
qed

subsection \<open>Names of the registry's own operations\<close>

text \<open>
  C8. When the id of an entity is one of the names the class defines (\<^verbatim>\<open>append\<close>,
  \<^verbatim>\<open>items\<close>, ...) and the entity is stored under its id, the attribute access
  \<^verbatim>\<open>states.<id>\<close> returns the class attribute and not the entity; the entity is
  still among \<^verbatim>\<open>items()\<close> and in the iteration sequence.
\<close>

theorem reserved_name_shadows_entity:
  assumes "state_id st \<in> set States_class_attrs"
    and "(state_id st, st) \<in> set (states_of self)"
  shows "py_getattr inherited self (state_id st) = Inr (ClassAttr (state_id st))
         \<and> py_getattr inherited self (state_id st) \<noteq> Inr (Entity st)
         \<and> (state_id st, st) \<in> set (States_items self)
         \<and> st \<in> set (list_States self)"
proof -
  from assms(1) have "state_id st \<noteq> ''_states''"
    by (auto simp: States_class_attrs_def)
  with assms(1) have "py_getattr inherited self (state_id st) = Inr (ClassAttr (state_id st))"
    by (simp add: py_getattr_def)
  moreover from assms(2) have "st \<in> set (list_States self)"
    by (force simp: list_States_values dict_values_def)
  ultimately show ?thesis using assms(2) by (simp add: States_items_def)
qed

theorem reserved_name_shadows_entity_witness:
  "state_id ent_append \<in> set States_class_attrs
   \<and> (state_id ent_append, ent_append) \<in> set (states_of (States_append reg_ABC ent_append))
   \<and> py_getattr [] (States_append reg_ABC ent_append) ''append'' = Inr (ClassAttr ''append'')
   \<and> States_items (States_append reg_ABC ent_append)
       = [(''A'', ent_A), (''B'', ent_B), (''C'', ent_C), (''append'', ent_append)]
   \<and> list_States (States_append reg_ABC ent_append) = [ent_A, ent_B, ent_C, ent_append]
   \<and> py_getattr [] (States_append reg_ABC ent_append) ''B'' = Inr (Entity ent_B)"
proof -
  have 1: "state_id ent_append \<in> set States_class_attrs"
    by (simp add: ent_append_def States_class_attrs_def)
  have 2: "states_of (States_append reg_ABC ent_append)
           = [(''A'', ent_A), (''B'', ent_B), (''C'', ent_C), (''append'', ent_append)]"
    by (simp add: States_append_def reg_ABC_def ent_append_def)
  have 3: "(state_id ent_append, ent_append) \<in> set (states_of (States_append reg_ABC ent_append))"
    by (simp add: 2) (simp add: ent_append_def)
  have 4: "py_getattr [] (States_append reg_ABC ent_append) ''B'' = Inr (Entity ent_B)"
    by (simp add: py_getattr_def States_class_attrs_def States_getattr_def 2 dict_contains_def)
  have 5: "state_id ent_append = ''append''"
    by (simp add: ent_append_def)
  show ?thesis
    using 1 3 4 5 reserved_name_shadows_entity [OF 1 3, of "[]"]
    by (simp add: 2 States_items_def list_States_values dict_values_def)
qed

subsection \<open>The enumeration adapter\<close>

text \<open>
  C5. For an enumeration (every member has a name and a value and can be hashed, no name
  twice), a final selector whose constants can be hashed, and every member \<open>e\<close> of the
  enumeration, \<^verbatim>\<open>from_enum\<close> returns a registry in which the lookup of the name of
  \<open>e\<close> finds an entity whose value is the \<^verbatim>\<open>value\<close> of \<open>e\<close> when
  \<^verbatim>\<open>use_enum_instance\<close> is unset, and the constant \<open>e\<close> itself, the same object, when
  it is set.
\<close>

theorem from_enum_value_mode:
  assumes "is_enum ob es" and "finals_hashable ob fin" and "e \<in> set es"
  shows "\<exists>reg n v st.
           from_enum ob eq no_id (Members es) ini fin flag = Inr reg
         \<and> attr_name (ob e) = Some n \<and> attr_value (ob e) = Some v
         \<and> States_getattr reg n = Inr st
         \<and> state_value st = (if flag then Instance e else Scalar v)"
proof -
  let ?g = "member_state ob eq no_id ini (set (ensure_iterable fin)) flag"
  let ?reg = "\<lparr>states_of = map (\<lambda>e. (member_name ob e, ?g e)) es\<rparr>"
  note m = is_enum_names [OF assms(1)]
  have "from_enum ob eq no_id (Members es) ini fin flag = Inr ?reg"
    by (rule from_enum_is_enum [OF assms(1,2)])
  moreover have "attr_name (ob e) = Some (member_name ob e)"
    and "attr_value (ob e) = Some (the (attr_value (ob e)))"
    using m(3,4) assms(3) by blast+
  moreover have "States_getattr ?reg (member_name ob e) = Inr (?g e)"
    by (rule getattr_member [OF assms(1,3)])
  moreover have "state_value (?g e) = (if flag then Instance e else Scalar (the (attr_value (ob e))))"
    by (simp add: member_state_def)
  ultimately show ?thesis by blast
qed

theorem from_enum_value_mode_witness:
  "is_enum status_objects [0, 1] \<and> finals_hashable status_objects (OneFinal 1)
   \<and> (1::nat) \<in> set [0, 1]
   \<and> from_enum status_objects (=) '''' (Members [0, 1]) 0 (OneFinal 1) False
       = Inr \<lparr>states_of =
           [(''pending'', \<lparr>state_id = '''', state_value = Scalar 1, initial = True, final = False\<rparr>),
            (''completed'', \<lparr>state_id = '''', state_value = Scalar 2, initial = False, final = True\<rparr>)]\<rparr>
   \<and> from_enum status_objects (=) '''' (Members [0, 1]) 0 (OneFinal 1) True
       = Inr \<lparr>states_of =
           [(''pending'', \<lparr>state_id = '''', state_value = Instance 0, initial = True, final = False\<rparr>),
            (''completed'', \<lparr>state_id = '''', state_value = Instance 1, initial = False, final = True\<rparr>)]\<rparr>"
proof -
  have 1: "is_enum status_objects [0, 1]"
    by (simp add: is_enum_def status_objects_def)
  have 2: "finals_hashable status_objects (OneFinal 1)"
    by (simp add: finals_hashable_def ensure_iterable_def status_objects_def)
  have 3: "(1::nat) \<in> set [0, 1]"
    by simp
  have 4: "from_enum status_objects (=) '''' (Members [0, 1]) 0 (OneFinal 1) False
       = Inr \<lparr>states_of =
           [(''pending'', \<lparr>state_id = '''', state_value = Scalar 1, initial = True, final = False\<rparr>),
            (''completed'', \<lparr>state_id = '''', state_value = Scalar 2, initial = False, final = True\<rparr>)]\<rparr>"
    by (simp add: from_enum_def ensure_iterable_def status_objects_def py_in_def py_set_def
        py_contains_def States_init_def)
  have 5: "from_enum status_objects (=) '''' (Members [0, 1]) 0 (OneFinal 1) True
       = Inr \<lparr>states_of =
           [(''pending'', \<lparr>state_id = '''', state_value = Instance 0, initial = True, final = False\<rparr>),
            (''completed'', \<lparr>state_id = '''', state_value = Instance 1, initial = False, final = True\<rparr>)]\<rparr>"
    by (simp add: from_enum_def ensure_iterable_def status_objects_def py_in_def py_set_def
        py_contains_def States_init_def)
  show ?thesis
    using 1 2 3 4 5 from_enum_value_mode [OF 1 2 3, of "(=)" "''''" 0 True]
    by simp
qed

text \<open>
  C6. In the registry \<^verbatim>\<open>from_enum\<close> returns for an enumeration and a final selector
  whose constants can be hashed, the entity of a member \<open>e\<close> has \<^verbatim>\<open>initial\<close> set
  exactly when \<open>e\<close> is the object given as \<^verbatim>\<open>initial\<close>: the references are compared,
  not what the objects hold and not the enumeration's \<^verbatim>\<open>__eq__\<close>. When
  \<^verbatim>\<open>initial\<close> is no member of the enumeration, the adapter still returns a registry,
  with one entity per member, and no entity of it is initial.
\<close>

theorem from_enum_initial_by_identity:
  assumes "is_enum ob es" and "finals_hashable ob fin"
  shows "\<exists>reg.
           from_enum ob eq no_id (Members es) ini fin flag = Inr reg
         \<and> length (list_States reg) = length es
         \<and> (\<forall>e \<in> set es. \<exists>n st.
               attr_name (ob e) = Some n \<and> States_getattr reg n = Inr st
             \<and> initial st = (e = ini))
         \<and> (ini \<notin> set es \<longrightarrow> (\<forall>st \<in> set (list_States reg). \<not> initial st))"
proof -
  let ?g = "member_state ob eq no_id ini (set (ensure_iterable fin)) flag"
  let ?reg = "\<lparr>states_of = map (\<lambda>e. (member_name ob e, ?g e)) es\<rparr>"
  note m = is_enum_names [OF assms(1)]
  have r: "from_enum ob eq no_id (Members es) ini fin flag = Inr ?reg"
    by (rule from_enum_is_enum [OF assms])
  have vals: "list_States ?reg = map ?g es"
    by (simp add: list_States_values dict_values_def comp_def)
  have each: "\<exists>n st. attr_name (ob e) = Some n \<and> States_getattr ?reg n = Inr st
                \<and> initial st = (e = ini)" if "e \<in> set es" for e
  proof -
    have "attr_name (ob e) = Some (member_name ob e)"
      using m(3) that by blast
    moreover have "States_getattr ?reg (member_name ob e) = Inr (?g e)"
      by (rule getattr_member [OF assms(1) that])
    moreover have "initial (?g e) = (e = ini)"
      by (simp add: member_state_def)
    ultimately show ?thesis by blast
  qed
  have none: "\<not> initial st" if "ini \<notin> set es" and "st \<in> set (list_States ?reg)" for st
    using that unfolding vals by (auto simp: member_state_def)
  have "length (list_States ?reg) = length es"
    by (simp add: vals)
  with r each none show ?thesis by blast
qed

theorem from_enum_initial_by_identity_witness:
  "is_enum status_objects [0, 1] \<and> finals_hashable status_objects NoFinal
   \<and> status_objects 2 = status_objects 0 \<and> same_contents status_objects 2 0
   \<and> (2::nat) \<notin> set [0, 1]
   \<and> from_enum status_objects (same_contents status_objects) '''' (Members [0, 1]) 2 NoFinal False
       = Inr \<lparr>states_of =
           [(''pending'', \<lparr>state_id = '''', state_value = Scalar 1, initial = False, final = False\<rparr>),
            (''completed'', \<lparr>state_id = '''', state_value = Scalar 2, initial = False, final = False\<rparr>)]\<rparr>
   \<and> from_enum status_objects (same_contents status_objects) '''' (Members [0, 1]) 0 NoFinal False
       = Inr \<lparr>states_of =
           [(''pending'', \<lparr>state_id = '''', state_value = Scalar 1, initial = True, final = False\<rparr>),
            (''completed'', \<lparr>state_id = '''', state_value = Scalar 2, initial = False, final = False\<rparr>)]\<rparr>"
proof -
  have 1: "is_enum status_objects [0, 1]"
    by (simp add: is_enum_def status_objects_def)
  have 2: "status_objects 2 = status_objects 0" "same_contents status_objects 2 0"
    by (simp_all add: same_contents_def status_objects_def)
  have 3: "(2::nat) \<notin> set [0, 1]"
    by simp
  have 4: "from_enum status_objects (same_contents status_objects) '''' (Members [0, 1]) 2 NoFinal False
       = Inr \<lparr>states_of =
           [(''pending'', \<lparr>state_id = '''', state_value = Scalar 1, initial = False, final = False\<rparr>),
            (''completed'', \<lparr>state_id = '''', state_value = Scalar 2, initial = False, final = False\<rparr>)]\<rparr>"
    by (simp add: from_enum_def ensure_iterable_def status_objects_def py_in_def py_set_def
        py_contains_def States_init_def)
  have 5: "from_enum status_objects (same_contents status_objects) '''' (Members [0, 1]) 0 NoFinal False
       = Inr \<lparr>states_of =
           [(''pending'', \<lparr>state_id = '''', state_value = Scalar 1, initial = True, final = False\<rparr>),
            (''completed'', \<lparr>state_id = '''', state_value = Scalar 2, initial = False, final = False\<rparr>)]\<rparr>"
    by (simp add: from_enum_def ensure_iterable_def status_objects_def py_in_def py_set_def
        py_contains_def States_init_def)
  have 6: "finals_hashable status_objects NoFinal"
    by (simp add: finals_hashable_def ensure_iterable_def)
  show ?thesis
    using 1 2 3 4 5 6
      from_enum_initial_by_identity [OF 1 6, of "same_contents status_objects" "''''" 2 False]
    by simp
qed

text \<open>
  C7. The final selector is normalised into a set: none for a selector left out, the one
  constant for a single constant, the constants of the collection for a collection. In the
  registry \<^verbatim>\<open>from_enum\<close> returns for an enumeration and a final selector whose
  constants can be hashed, the entity of a member \<open>e\<close> has \<^verbatim>\<open>final\<close> set exactly
  when \<open>e\<close> is in that set by Python's \<^verbatim>\<open>in\<close> (the same object or equal by the
  enumeration's equality), which is set membership when only an object equals itself.
  With no final selector no entity is final.
\<close>

theorem from_enum_final_membership:
  assumes "is_enum ob es" and "finals_hashable ob fin"
  shows "\<exists>reg.
           from_enum ob eq no_id (Members es) ini fin flag = Inr reg
         \<and> (\<forall>e \<in> set es. \<exists>n st.
               attr_name (ob e) = Some n \<and> States_getattr reg n = Inr st
             \<and> final st = py_in eq (set (ensure_iterable fin)) e
             \<and> ((\<forall>a b. eq a b \<longrightarrow> a = b) \<longrightarrow> final st = (e \<in> set (ensure_iterable fin))))
         \<and> (fin = NoFinal \<longrightarrow> (\<forall>st \<in> set (list_States reg). \<not> final st))
         \<and> set (ensure_iterable NoFinal) = {}
         \<and> set (ensure_iterable (OneFinal c)) = {c}
         \<and> set (ensure_iterable (ManyFinal cs)) = set cs"
proof -
  let ?fs = "set (ensure_iterable fin)"
  let ?g = "member_state ob eq no_id ini ?fs flag"
  let ?reg = "\<lparr>states_of = map (\<lambda>e. (member_name ob e, ?g e)) es\<rparr>"
  note m = is_enum_names [OF assms(1)]
  have r: "from_enum ob eq no_id (Members es) ini fin flag = Inr ?reg"
    by (rule from_enum_is_enum [OF assms])
  have vals: "list_States ?reg = map ?g es"
    by (simp add: list_States_values dict_values_def comp_def)
  have each: "\<exists>n st. attr_name (ob e) = Some n \<and> States_getattr ?reg n = Inr st
                \<and> final st = py_in eq ?fs e
                \<and> ((\<forall>a b. eq a b \<longrightarrow> a = b) \<longrightarrow> final st = (e \<in> ?fs))"
    if "e \<in> set es" for e
  proof -
    have "attr_name (ob e) = Some (member_name ob e)"
      using m(3) that by blast
    moreover have "States_getattr ?reg (member_name ob e) = Inr (?g e)"
      by (rule getattr_member [OF assms(1) that])
    moreover have "final (?g e) = py_in eq ?fs e"
      by (simp add: member_state_def)
    moreover have "(\<forall>a b. eq a b \<longrightarrow> a = b) \<longrightarrow> final (?g e) = (e \<in> ?fs)"
      by (simp add: member_state_def py_in_identity)
    ultimately show ?thesis by blast
  qed
  have none: "\<not> final st" if "fin = NoFinal" and "st \<in> set (list_States ?reg)" for st
    using that unfolding vals by (auto simp: member_state_def py_in_def ensure_iterable_def)
  have norm: "set (ensure_iterable NoFinal) = {}"
    "set (ensure_iterable (OneFinal c)) = {c}"
    "set (ensure_iterable (ManyFinal cs)) = set cs"
    by (simp_all add: ensure_iterable_def)
  from r each none norm show ?thesis by blast
qed

theorem from_enum_final_membership_witness:
  "is_enum status_objects [0, 1] \<and> finals_hashable status_objects NoFinal
   \<and> from_enum status_objects (=) '''' (Members [0, 1]) 0 (OneFinal 1) False
       = Inr \<lparr>states_of =
           [(''pending'', \<lparr>state_id = '''', state_value = Scalar 1, initial = True, final = False\<rparr>),
            (''completed'', \<lparr>state_id = '''', state_value = Scalar 2, initial = False, final = True\<rparr>)]\<rparr>
   \<and> from_enum status_objects (=) '''' (Members [0, 1]) 0 (ManyFinal [1, 0, 1]) False
       = Inr \<lparr>states_of =
           [(''pending'', \<lparr>state_id = '''', state_value = Scalar 1, initial = True, final = True\<rparr>),
            (''completed'', \<lparr>state_id = '''', state_value = Scalar 2, initial = False, final = True\<rparr>)]\<rparr>
   \<and> from_enum status_objects (=) '''' (Members [0, 1]) 0 NoFinal False
       = Inr \<lparr>states_of =
           [(''pending'', \<lparr>state_id = '''', state_value = Scalar 1, initial = True, final = False\<rparr>),
            (''completed'', \<lparr>state_id = '''', state_value = Scalar 2, initial = False, final = False\<rparr>)]\<rparr>"
proof -
  have 1: "is_enum status_objects [0, 1]"
    by (simp add: is_enum_def status_objects_def)
  have 2: "from_enum status_objects (=) '''' (Members [0, 1]) 0 (OneFinal 1) False
       = Inr \<lparr>states_of =
           [(''pending'', \<lparr>state_id = '''', state_value = Scalar 1, initial = True, final = False\<rparr>),
            (''completed'', \<lparr>state_id = '''', state_value = Scalar 2, initial = False, final = True\<rparr>)]\<rparr>"
    by (simp add: from_enum_def ensure_iterable_def status_objects_def py_in_def py_set_def
        py_contains_def States_init_def)
  have 3: "from_enum status_objects (=) '''' (Members [0, 1]) 0 (ManyFinal [1, 0, 1]) False
       = Inr \<lparr>states_of =
           [(''pending'', \<lparr>state_id = '''', state_value = Scalar 1, initial = True, final = True\<rparr>),
            (''completed'', \<lparr>state_id = '''', state_value = Scalar 2, initial = False, final = True\<rparr>)]\<rparr>"
    by (simp add: from_enum_def ensure_iterable_def status_objects_def py_in_def py_set_def
        py_contains_def States_init_def)
  have 4: "from_enum status_objects (=) '''' (Members [0, 1]) 0 NoFinal False
       = Inr \<lparr>states_of =
           [(''pending'', \<lparr>state_id = '''', state_value = Scalar 1, initial = True, final = False\<rparr>),
            (''completed'', \<lparr>state_id = '''', state_value = Scalar 2, initial = False, final = False\<rparr>)]\<rparr>"
    by (simp add: from_enum_def ensure_iterable_def status_objects_def py_in_def py_set_def
        py_contains_def States_init_def)
  have 5: "finals_hashable status_objects NoFinal"
    by (simp add: finals_hashable_def ensure_iterable_def)
  show ?thesis
    using 1 2 3 4 5
      from_enum_final_membership [OF 1 5, of "(=)" "''''" 0 False 0 "[]"]
    by simp
qed

subsection \<open>Errors at construction\<close>

text \<open>
  C9, as the code has it. \<^verbatim>\<open>from_enum\<close> fails when it is called, and returns no
  registry then: with \<^verbatim>\<open>TypeError\<close> when a constant of the final selector cannot be
  hashed or, else, when the enumeration argument is not iterable; otherwise with the
  exception of the first member at which the comprehension raises one, which is
  \<^verbatim>\<open>AttributeError\<close> for a member that lacks an attribute that is read (\<^verbatim>\<open>name\<close>, and
  \<^verbatim>\<open>value\<close> unless \<^verbatim>\<open>use_enum_instance\<close> is set) and \<^verbatim>\<open>TypeError\<close> for a member
  that has them and cannot be hashed. When there is no such constant and no such member it
  returns a registry. \<^verbatim>\<open>__init__\<close> checks nothing: it returns a registry holding the
  mapping it was given, whatever the mapping is.
\<close>

theorem construction_errors:
  "(\<not> finals_hashable ob fin \<longrightarrow>
      from_enum ob eq no_id enum_type ini fin flag = Inl (TypeError ''unhashable type''))
   \<and> (finals_hashable ob fin \<longrightarrow>
      from_enum ob eq no_id NotAnEnum ini fin flag = Inl (TypeError ''object is not iterable''))
   \<and> (finals_hashable ob fin \<and> list_all (processable ob flag) xs
        \<and> member_error ob flag e = Some err \<longrightarrow>
      from_enum ob eq no_id (Members (xs @ e # ys)) ini fin flag = Inl err
      \<and> err \<in> {AttributeError ''name'', AttributeError ''value'', TypeError ''unhashable type''})
   \<and> (finals_hashable ob fin \<and> list_all (processable ob flag) es \<longrightarrow>
      (\<exists>reg. from_enum ob eq no_id (Members es) ini fin flag = Inr reg))
   \<and> States_init None = Inr \<lparr>states_of = []\<rparr>
   \<and> States_init (Some d) = Inr \<lparr>states_of = d\<rparr>"
proof -
  have set_ok: "py_set ob (ensure_iterable fin) = Inr (set (ensure_iterable fin))"
    if "finals_hashable ob fin"
    using that by (simp add: py_set_def finals_hashable_def)
  have 1: "from_enum ob eq no_id enum_type ini fin flag = Inl (TypeError ''unhashable type'')"
    if "\<not> finals_hashable ob fin"
    using that by (simp add: from_enum_def py_set_def finals_hashable_def)
  have 2: "from_enum ob eq no_id NotAnEnum ini fin flag = Inl (TypeError ''object is not iterable'')"
    if "finals_hashable ob fin"
    by (simp add: from_enum_def set_ok [OF that])
  have 3: "from_enum ob eq no_id (Members (xs @ e # ys)) ini fin flag = Inl err
           \<and> err \<in> {AttributeError ''name'', AttributeError ''value'', TypeError ''unhashable type''}"
    if "finals_hashable ob fin" and "list_all (processable ob flag) xs"
      and "member_error ob flag e = Some err"
  proof -
    have "from_enum ob eq no_id (Members (xs @ e # ys)) ini fin flag = Inl err"
      by (simp add: from_enum_def set_ok [OF that(1)] enum_states_first_error [OF that(2,3)])
    moreover from that(3)
    have "err \<in> {AttributeError ''name'', AttributeError ''value'', TypeError ''unhashable type''}"
      by (auto simp: member_error_def split: if_splits)
    ultimately show ?thesis by simp
  qed
  have 4: "\<exists>reg. from_enum ob eq no_id (Members es) ini fin flag = Inr reg"
    if "finals_hashable ob fin" and "list_all (processable ob flag) es"
    by (simp add: from_enum_def set_ok [OF that(1)] enum_states_processable [OF that(2)]
        States_init_def)
  have 5: "States_init None = Inr \<lparr>states_of = []\<rparr>"
    and 6: "States_init (Some d) = Inr \<lparr>states_of = d\<rparr>"
    by (simp_all add: States_init_def)
  from 1 2 3 4 5 6 show ?thesis by blast
qed

theorem construction_errors_witness:
  "\<not> finals_hashable status_objects (OneFinal 3)
   \<and> from_enum status_objects (=) '''' (Members [0, 1]) 0 (OneFinal 3) False = Inl (TypeError ''unhashable type'')
   \<and> finals_hashable status_objects NoFinal
   \<and> from_enum status_objects (=) '''' NotAnEnum 0 NoFinal False
       = Inl (TypeError ''object is not iterable'')
   \<and> list_all (processable status_objects False) [0]
   \<and> member_error status_objects False 5 = Some (AttributeError ''name'')
   \<and> from_enum status_objects (=) '''' (Members [0, 5, 1]) 0 NoFinal False = Inl (AttributeError ''name'')
   \<and> member_error status_objects False 3 = Some (TypeError ''unhashable type'')
   \<and> from_enum status_objects (=) '''' (Members [0, 3, 1]) 0 NoFinal False = Inl (TypeError ''unhashable type'')
   \<and> list_all (processable status_objects False) [0, 1]
   \<and> from_enum status_objects (=) '''' (Members [0, 1]) 0 NoFinal False
       = Inr \<lparr>states_of =
           [(''pending'', \<lparr>state_id = '''', state_value = Scalar 1, initial = True, final = False\<rparr>),
            (''completed'', \<lparr>state_id = '''', state_value = Scalar 2, initial = False, final = False\<rparr>)]\<rparr>"
proof -
  have 1: "\<not> finals_hashable status_objects (OneFinal 3)"
    by (simp add: finals_hashable_def ensure_iterable_def status_objects_def)
  have 2: "finals_hashable status_objects NoFinal"
    by (simp add: finals_hashable_def ensure_iterable_def)
  have 3: "list_all (processable status_objects False) [0]"
    "list_all (processable status_objects False) [0, 1]"
    by (simp_all add: processable_def member_error_def status_objects_def)
  have 4: "member_error status_objects False 5 = Some (AttributeError ''name'')"
    "member_error status_objects False 3 = Some (TypeError ''unhashable type'')"
    by (simp_all add: member_error_def status_objects_def)
  have 5: "from_enum status_objects (=) '''' (Members [0, 1]) 0 (OneFinal 3) False = Inl (TypeError ''unhashable type'')"
    using 1 construction_errors [of status_objects "OneFinal 3" "(=)" "''''" "Members [0, 1]" 0 False]
    by blast
  have 6: "from_enum status_objects (=) '''' NotAnEnum 0 NoFinal False
       = Inl (TypeError ''object is not iterable'')"
    using 2 construction_errors [of status_objects NoFinal "(=)" "''''" _ 0 False]
    by blast
  have 7: "from_enum status_objects (=) '''' (Members ([0] @ 5 # [1])) 0 NoFinal False
             = Inl (AttributeError ''name'')"
    using 2 3(1) 4(1)
      construction_errors [of status_objects NoFinal "(=)" "''''" _ 0 False "[0]" 5
        "AttributeError ''name''" "[1]"]
    by blast
  have 8: "from_enum status_objects (=) '''' (Members ([0] @ 3 # [1])) 0 NoFinal False
             = Inl (TypeError ''unhashable type'')"
    using 2 3(1) 4(2)
      construction_errors [of status_objects NoFinal "(=)" "''''" _ 0 False "[0]" 3
        "TypeError ''unhashable type''" "[1]"]
    by blast
  have 9: "from_enum status_objects (=) '''' (Members [0, 1]) 0 NoFinal False
       = Inr \<lparr>states_of =
           [(''pending'', \<lparr>state_id = '''', state_value = Scalar 1, initial = True, final = False\<rparr>),
            (''completed'', \<lparr>state_id = '''', state_value = Scalar 2, initial = False, final = False\<rparr>)]\<rparr>"
    by (simp add: from_enum_def ensure_iterable_def status_objects_def py_in_def py_set_def
        py_contains_def States_init_def)
  from 1 2 3 4 5 6 7 8 9 show ?thesis by simp
qed

text \<open>
  The claim as stated fails: a mapping whose keys are not the ids of its entities is
  accepted by \<^verbatim>\<open>__init__\<close> without an error, and the mismatch shows only later, when
  the entity \<open>A\<close> is looked up by its id.
\<close>

theorem malformed_mapping_accepted_counterexample:
  "\<not> keyed_by_id map_xy
   \<and> States_init (Some map_xy) = Inr \<lparr>states_of = map_xy\<rparr>
   \<and> States_getattr \<lparr>states_of = map_xy\<rparr> ''A'' = Inl (AttributeError ''A not found in States'')"
  by (simp add: keyed_by_id_def map_xy_def ent_A_def ent_B_def States_init_def
      States_getattr_def dict_contains_def)

end
